theory Spec2Isabelle
  imports Complex_Main "HOL-Library.AList"
begin

section \<open>AccumulateState.js: accumulative states\<close>

text \<open>
  The plugin patches the battler classes of the host engine so that states tagged
  \<^verbatim>\<open><Accumulate>\<close> are not inflicted at once: every infliction adds a rate to a
  per-battler total, and the state becomes active when the total reaches 1.0.

  Conventions of the embedding:
  \<^item> JavaScript numbers are read as real numbers: rounding, infinities and NaN are not
    part of the model. The idiom \<^verbatim>\<open>x || 0\<close> on a possibly missing number is \<open>orZero\<close>.
  \<^item> The two plain objects \<^verbatim>\<open>_stateAccumulations\<close> and \<^verbatim>\<open>_stateImmunity\<close> are
    association lists keyed by state id, read with \<open>map_of\<close>; a field that is still
    \<^verbatim>\<open>undefined\<close> is \<open>None\<close>.
  \<^item> The methods of the host engine that the plugin wraps or calls are not part of the
    plugin. They are the fields of the record \<open>host\<close> and act on the host-owned fields
    of a battler, which are kept abstract (type variable \<open>'e\<close>). The host's
    \<^verbatim>\<open>removeBattleStates\<close> calls \<^verbatim>\<open>this.removeState\<close>, which is the plugin's override;
    that method is written out with the call.
  \<^item> A read of a property of \<^verbatim>\<open>undefined\<close> is the error value \<open>TypeError\<close>.
\<close>

subsection \<open>Data\<close>

type_synonym 'v obj = "(int \<times> 'v) list"

datatype error = TypeError

text \<open>An entry of \<^verbatim>\<open>$dataStates\<close>: whether the note carries the tag \<^verbatim>\<open>Accumulate\<close>
  (the result of \<^verbatim>\<open>PluginManagerEx.findMetaValue\<close> read as a boolean) and the database
  flag \<^verbatim>\<open>removeAtBattleEnd\<close>.\<close>

record dataState =
  metaAccumulate :: bool
  removeAtBattleEnd :: bool

text \<open>The result of \<^verbatim>\<open>eval(param.AccumulateFormula)\<close> with \<^verbatim>\<open>a\<close> and \<^verbatim>\<open>b\<close> bound: the
  formula throws, or it yields a number. Of a thrown value the \<^verbatim>\<open>catch\<close> block reads
  \<^verbatim>\<open>e.stack\<close>, which itself throws when the value is \<^verbatim>\<open>null\<close> or \<^verbatim>\<open>undefined\<close>.\<close>

datatype thrown = ThrownNullish | ThrownOther

datatype evalResult = Throws thrown | Value real

text \<open>The plugin parameters. An empty formula text is falsy in the source: \<open>None\<close>.\<close>

record param =
  AccumulateFormula :: "(real \<Rightarrow> real \<Rightarrow> evalResult) option"
  LuckAdjust :: bool
  CertainHit :: bool
  ImmunityRate :: real
  ResetAccumulateEndBattle :: bool

text \<open>The host methods: the originals saved by the plugin before it overrides them
  (\<^verbatim>\<open>_Game_BattlerBase_clearStates\<close> and so on), and the methods it calls.\<close>

record 'e host =
  Game_BattlerBase_clearStates :: "'e \<Rightarrow> 'e"
  Game_BattlerBase_eraseState :: "int \<Rightarrow> 'e \<Rightarrow> 'e"
  Game_Battler_removeState :: "int \<Rightarrow> 'e \<Rightarrow> 'e"
  states :: "'e \<Rightarrow> int list"
  isStateAffected :: "'e \<Rightarrow> int \<Rightarrow> bool"
  addState :: "int \<Rightarrow> 'e \<Rightarrow> 'e"
  stateRate :: "'e \<Rightarrow> int \<Rightarrow> real"

record 'e battler =
  hostFields :: 'e
  stateAccumulations :: "real obj option"
  stateImmunity :: "nat obj option"

text \<open>What \<^verbatim>\<open>Game_Action\<close> contributes: \<^verbatim>\<open>this.isCertainHit()\<close> and
  \<^verbatim>\<open>this.lukEffectRate(target)\<close>.\<close>

record 'e action =
  isCertainHit :: bool
  lukEffectRate :: "'e \<Rightarrow> real"

record effect =
  dataId :: int
  value1 :: real

datatype diagnostic = PlayBuzzer | ConsoleWarn

text \<open>The arguments of the plugin command and the two global collections it reads.\<close>

record commandArgs =
  args_actorId :: int
  args_enemyIndex :: int
  args_stateId :: int
  args_rate :: real

record 'e gameObjects =
  gameActors :: "int \<rightharpoonup> 'e battler"
  gameTroopMembers :: "'e battler list"

subsection \<open>Helpers for the JavaScript idioms\<close>

definition orZero :: "'a::zero option \<Rightarrow> 'a" where
  "orZero x = (case x of None \<Rightarrow> 0 | Some v \<Rightarrow> v)"

definition clamp :: "real \<Rightarrow> real \<Rightarrow> real \<Rightarrow> real" where
  "clamp x lo hi = min (max x lo) hi"

definition entries :: "'v obj option \<Rightarrow> 'v obj" where
  "entries field = (case field of None \<Rightarrow> [] | Some m \<Rightarrow> m)"

text \<open>The stored entries, as an observer sees them: \<open>None\<close> when the object or the key
  is missing.\<close>

definition accumulationEntry :: "'e battler \<Rightarrow> int \<Rightarrow> real option" where
  "accumulationEntry b sid = map_of (entries (stateAccumulations b)) sid"

definition immunityEntry :: "'e battler \<Rightarrow> int \<Rightarrow> nat option" where
  "immunityEntry b sid = map_of (entries (stateImmunity b)) sid"

subsection \<open>Game_BattlerBase and Game_Battler\<close>

definition clearStateAccumulationsIfNeed :: "'e battler \<Rightarrow> 'e battler" where
  "clearStateAccumulationsIfNeed b =
     (let b1 = (case stateAccumulations b of
                  None \<Rightarrow> b\<lparr>stateAccumulations := Some []\<rparr>
                | Some _ \<Rightarrow> b)
      in case stateImmunity b1 of
           None \<Rightarrow> b1\<lparr>stateImmunity := Some []\<rparr>
         | Some _ \<Rightarrow> b1)"

definition clearStates :: "'e host \<Rightarrow> 'e battler \<Rightarrow> 'e battler" where
  "clearStates h b =
     clearStateAccumulationsIfNeed
       (b\<lparr>hostFields := Game_BattlerBase_clearStates h (hostFields b)\<rparr>)"

definition deleteAccumulation :: "int \<Rightarrow> 'e battler \<Rightarrow> 'e battler" where
  "deleteAccumulation sid b =
     b\<lparr>stateAccumulations := Some (AList.delete sid (entries (stateAccumulations b)))\<rparr>"

definition eraseState :: "'e host \<Rightarrow> int \<Rightarrow> 'e battler \<Rightarrow> 'e battler" where
  "eraseState h sid b =
     deleteAccumulation sid
       (clearStateAccumulationsIfNeed
          (b\<lparr>hostFields := Game_BattlerBase_eraseState h sid (hostFields b)\<rparr>))"

definition removeState :: "'e host \<Rightarrow> int \<Rightarrow> 'e battler \<Rightarrow> 'e battler" where
  "removeState h sid b =
     deleteAccumulation sid
       (clearStateAccumulationsIfNeed
          (b\<lparr>hostFields := Game_Battler_removeState h sid (hostFields b)\<rparr>))"

definition isStateAccumulate :: "(int \<rightharpoonup> dataState) \<Rightarrow> int \<Rightarrow> bool" where
  "isStateAccumulate ds sid =
     (sid > 0 \<and> (case ds sid of None \<Rightarrow> False | Some state \<Rightarrow> metaAccumulate state))"

definition accumulateState ::
  "'e host \<Rightarrow> (int \<rightharpoonup> dataState) \<Rightarrow> int \<Rightarrow> real \<Rightarrow> 'e battler \<Rightarrow> 'e battler \<times> bool" where
  "accumulateState h ds sid v b0 =
     (let b = clearStateAccumulationsIfNeed b0 in
      if isStateAccumulate ds sid then
        let acc = entries (stateAccumulations b);
            total = orZero (map_of acc sid) + v;
            b1 = b\<lparr>stateAccumulations := Some (AList.update sid total acc)\<rparr>
        in if \<not> isStateAffected h (hostFields b1) sid \<and> total \<ge> 1 then
             let b2 = b1\<lparr>hostFields := addState h sid (hostFields b1)\<rparr>;
                 imm = entries (stateImmunity b2)
             in (b2\<lparr>stateImmunity :=
                       Some (AList.update sid (orZero (map_of imm sid) + 1) imm)\<rparr>, True)
           else (b1, False)
      else (b, False))"

text \<open>The host's \<^verbatim>\<open>Game_Battler.prototype.removeBattleStates\<close>, which the plugin saves
  and applies to the battler itself: for every state of \<^verbatim>\<open>this.states()\<close> with
  \<^verbatim>\<open>removeAtBattleEnd\<close> it calls \<^verbatim>\<open>this.removeState\<close>, that is, the override above. The
  list of states is taken once, before the loop; the host activates states of the
  database only, so an id without an entry counts as not flagged.\<close>

fun removeFlaggedStates ::
  "'e host \<Rightarrow> (int \<rightharpoonup> dataState) \<Rightarrow> int list \<Rightarrow> 'e battler \<Rightarrow> 'e battler" where
  "removeFlaggedStates h ds [] b = b"
| "removeFlaggedStates h ds (sid # rest) b =
     removeFlaggedStates h ds rest
       (if (case ds sid of None \<Rightarrow> False | Some state \<Rightarrow> removeAtBattleEnd state)
        then removeState h sid b else b)"

definition Game_Battler_removeBattleStates ::
  "'e host \<Rightarrow> (int \<rightharpoonup> dataState) \<Rightarrow> 'e battler \<Rightarrow> 'e battler" where
  "Game_Battler_removeBattleStates h ds b =
     removeFlaggedStates h ds (states h (hostFields b)) b"

text \<open>The \<^verbatim>\<open>for ... in\<close> loop of \<^verbatim>\<open>removeBattleStates\<close> over the keys of
  \<^verbatim>\<open>_stateAccumulations\<close>. Reading \<^verbatim>\<open>removeAtBattleEnd\<close> of a state id without an entry
  in \<^verbatim>\<open>$dataStates\<close> throws.\<close>

fun resetAccumulations ::
  "(int \<rightharpoonup> dataState) \<Rightarrow> int list \<Rightarrow> real obj \<Rightarrow> error + real obj" where
  "resetAccumulations ds [] acc = Inr acc"
| "resetAccumulations ds (sid # rest) acc =
     (case ds sid of
        None \<Rightarrow> Inl TypeError
      | Some state \<Rightarrow>
          resetAccumulations ds rest
            (if removeAtBattleEnd state
                \<and> (case map_of acc sid of None \<Rightarrow> False | Some x \<Rightarrow> x > 0)
             then AList.update sid 0 acc else acc))"

definition removeBattleStates ::
  "param \<Rightarrow> 'e host \<Rightarrow> (int \<rightharpoonup> dataState) \<Rightarrow> 'e battler \<Rightarrow> error + 'e battler" where
  "removeBattleStates p h ds b =
     (let b1 = Game_Battler_removeBattleStates h ds b in
      if ResetAccumulateEndBattle p then
        (case stateAccumulations b1 of
           None \<Rightarrow> Inr b1
         | Some acc \<Rightarrow>
             (case resetAccumulations ds (map fst acc) acc of
                Inl e \<Rightarrow> Inl e
              | Inr acc' \<Rightarrow> Inr (b1\<lparr>stateAccumulations := Some acc'\<rparr>)))
      else Inr b1)"

definition getStateImmunity :: "param \<Rightarrow> 'e battler \<Rightarrow> int \<Rightarrow> error + real" where
  "getStateImmunity p b sid =
     (case stateImmunity b of
        None \<Rightarrow> Inl TypeError
      | Some imm \<Rightarrow>
          Inr (case map_of imm sid of
                 None \<Rightarrow> 0
               | Some n \<Rightarrow> real n * ImmunityRate p / 100))"

definition getStateAccumulation :: "'e battler \<Rightarrow> int \<Rightarrow> error + real" where
  "getStateAccumulation b sid =
     (case stateAccumulations b of
        None \<Rightarrow> Inl TypeError
      | Some acc \<Rightarrow> Inr (orZero (map_of acc sid)))"

subsection \<open>Game_Action\<close>

text \<open>A computation of \<^verbatim>\<open>Game_Action\<close> ends with a number or with an exception; either
  way the diagnostics emitted up to that point are kept.\<close>

type_synonym 'a traced = "(error \<times> diagnostic list) + ('a \<times> diagnostic list)"

text \<open>The value of \<^verbatim>\<open>effectValue\<close> in \<^verbatim>\<open>applyResistanceForAccumulateState\<close> after the
  formula (or the state rate) and the luck adjustment, before the immunity factor. The
  \<^verbatim>\<open>catch\<close> block plays the buzzer, warns with the formula text and then warns with
  \<^verbatim>\<open>e.stack\<close>; for a thrown \<^verbatim>\<open>null\<close> or \<^verbatim>\<open>undefined\<close> that read throws out of the
  handler.\<close>

definition effectValueAfterLuck ::
  "param \<Rightarrow> 'e host \<Rightarrow> 'e action \<Rightarrow> real \<Rightarrow> 'e battler \<Rightarrow> int \<Rightarrow> real traced" where
  "effectValueAfterLuck p h act effectValue target sid =
     (case (case AccumulateFormula p of
              Some formula \<Rightarrow>
                (case formula effectValue (stateRate h (hostFields target) sid) of
                   Value x \<Rightarrow> Inr (x, [])
                 | Throws ThrownOther \<Rightarrow> Inr (effectValue, [PlayBuzzer, ConsoleWarn, ConsoleWarn])
                 | Throws ThrownNullish \<Rightarrow> Inl (TypeError, [PlayBuzzer, ConsoleWarn]))
            | None \<Rightarrow> Inr (effectValue * stateRate h (hostFields target) sid, [])) of
        Inl failure \<Rightarrow> Inl failure
      | Inr (ev, diags) \<Rightarrow>
          Inr (if LuckAdjust p then ev * lukEffectRate act (hostFields target) else ev, diags))"

definition applyResistanceForAccumulateState ::
  "param \<Rightarrow> 'e host \<Rightarrow> 'e action \<Rightarrow> real \<Rightarrow> 'e battler \<Rightarrow> int \<Rightarrow> real traced" where
  "applyResistanceForAccumulateState p h act effectValue target sid =
     (case effectValueAfterLuck p h act effectValue target sid of
        Inl failure \<Rightarrow> Inl failure
      | Inr (ev, diags) \<Rightarrow>
          (case getStateImmunity p target sid of
             Inl e \<Rightarrow> Inl (e, diags)
           | Inr immunity \<Rightarrow> Inr (clamp (ev * (1 - immunity)) 0 1, diags)))"

text \<open>The local \<^verbatim>\<open>accumulation\<close> of \<^verbatim>\<open>itemEffectAddNormalState\<close> at the call of
  \<^verbatim>\<open>target.accumulateState\<close>.\<close>

definition normalStateAccumulation ::
  "param \<Rightarrow> 'e host \<Rightarrow> 'e action \<Rightarrow> 'e battler \<Rightarrow> effect \<Rightarrow> real traced" where
  "normalStateAccumulation p h act target eff =
     (if \<not> isCertainHit act \<or> \<not> CertainHit p
      then applyResistanceForAccumulateState p h act (value1 eff) target (dataId eff)
      else Inr (value1 eff, []))"

text \<open>The outcome of \<^verbatim>\<open>itemEffectAddNormalState\<close>: the call is handed to the host's
  original, or the target has accumulated, with the success mark of
  \<^verbatim>\<open>makeSuccess\<close> and the diagnostics.\<close>

datatype 'e normalStateOutcome =
  HostOriginal
  | Accumulated "'e battler" bool "diagnostic list"

definition itemEffectAddNormalState ::
  "param \<Rightarrow> 'e host \<Rightarrow> (int \<rightharpoonup> dataState) \<Rightarrow> 'e action \<Rightarrow> 'e battler \<Rightarrow> effect
     \<Rightarrow> (error \<times> diagnostic list) + 'e normalStateOutcome" where
  "itemEffectAddNormalState p h ds act target eff =
     (if isStateAccumulate ds (dataId eff) then
        (case normalStateAccumulation p h act target eff of
           Inl failure \<Rightarrow> Inl failure
         | Inr (accumulation, diags) \<Rightarrow>
             (let (target', result) = accumulateState h ds (dataId eff) accumulation target
              in Inr (Accumulated target' result diags)))
      else Inr HostOriginal)"

subsection \<open>The plugin command ACCUMULATE\<close>

definition ACCUMULATE ::
  "'e host \<Rightarrow> (int \<rightharpoonup> dataState) \<Rightarrow> commandArgs \<Rightarrow> 'e gameObjects \<Rightarrow> 'e gameObjects" where
  "ACCUMULATE h ds args g =
     (let g1 = (case gameActors g (args_actorId args) of
                  None \<Rightarrow> g
                | Some actor \<Rightarrow>
                    g\<lparr>gameActors := (gameActors g)(args_actorId args \<mapsto>
                         fst (accumulateState h ds (args_stateId args) (args_rate args / 100) actor))\<rparr>);
          i = args_enemyIndex args;
          members = gameTroopMembers g1
      in if 0 \<le> i \<and> nat i < length members then
           g1\<lparr>gameTroopMembers := members[nat i :=
                 fst (accumulateState h ds (args_stateId args) (args_rate args / 100)
                        (members ! nat i))]\<rparr>
         else g1)"

subsection \<open>Sequences of calls\<close>

datatype battlerCall =
  CallClearStates
  | CallEraseState int
  | CallRemoveState int
  | CallAccumulateState int real
  | CallRemoveBattleStates

fun call :: "param \<Rightarrow> 'e host \<Rightarrow> (int \<rightharpoonup> dataState) \<Rightarrow> battlerCall \<Rightarrow> 'e battler
               \<Rightarrow> error + 'e battler" where
  "call p h ds CallClearStates b = Inr (clearStates h b)"
| "call p h ds (CallEraseState sid) b = Inr (eraseState h sid b)"
| "call p h ds (CallRemoveState sid) b = Inr (removeState h sid b)"
| "call p h ds (CallAccumulateState sid v) b = Inr (fst (accumulateState h ds sid v b))"
| "call p h ds CallRemoveBattleStates b = removeBattleStates p h ds b"

fun calls :: "param \<Rightarrow> 'e host \<Rightarrow> (int \<rightharpoonup> dataState) \<Rightarrow> battlerCall list \<Rightarrow> 'e battler
                \<Rightarrow> error + 'e battler" where
  "calls p h ds [] b = Inr b"
| "calls p h ds (c # cs) b =
     (case call p h ds c b of Inl e \<Rightarrow> Inl e | Inr b' \<Rightarrow> calls p h ds cs b')"

subsection \<open>Keys of the accumulation object\<close>

text \<open>Every key of \<^verbatim>\<open>_stateAccumulations\<close> has an entry in \<^verbatim>\<open>$dataStates\<close>. The
  plugin writes a key only in \<^verbatim>\<open>accumulateState\<close>, for an accumulative state, so the
  property holds of every battler that starts without entries; the loop of
  \<^verbatim>\<open>removeBattleStates\<close> relies on it.\<close>

definition accumulationKeysDefined :: "(int \<rightharpoonup> dataState) \<Rightarrow> 'e battler \<Rightarrow> bool" where
  "accumulationKeysDefined ds b \<longleftrightarrow>
     (\<forall>k \<in> fst ` set (entries (stateAccumulations b)). ds k \<noteq> None)"

subsection \<open>A concrete host and database\<close>

text \<open>A small host whose battlers own just the list of active state ids, and a database
  with the accumulative states 3 (removed at battle end) and 4, and the ordinary state 5.\<close>

definition listHost :: "int list host" where
  "listHost =
     \<lparr>Game_BattlerBase_clearStates = (\<lambda>_. []),
      Game_BattlerBase_eraseState = (\<lambda>sid e. removeAll sid e),
      Game_Battler_removeState = (\<lambda>sid e. removeAll sid e),
      states = (\<lambda>e. e),
      isStateAffected = (\<lambda>e sid. sid \<in> set e),
      addState = (\<lambda>sid e. if sid \<in> set e then e else e @ [sid]),
      stateRate = (\<lambda>_ _. 1 / 2)\<rparr>"

definition demoStates :: "int \<rightharpoonup> dataState" where
  "demoStates =
     [3 \<mapsto> \<lparr>metaAccumulate = True, removeAtBattleEnd = True\<rparr>,
      4 \<mapsto> \<lparr>metaAccumulate = True, removeAtBattleEnd = False\<rparr>,
      5 \<mapsto> \<lparr>metaAccumulate = False, removeAtBattleEnd = False\<rparr>]"

definition demoParam :: param where
  "demoParam =
     \<lparr>AccumulateFormula = None, LuckAdjust = True, CertainHit = True,
      ImmunityRate = 100, ResetAccumulateEndBattle = True\<rparr>"

definition demoAction :: "bool \<Rightarrow> int list action" where
  "demoAction certain = \<lparr>isCertainHit = certain, lukEffectRate = (\<lambda>_. 1 / 2)\<rparr>"

definition demoBattler :: "int list \<Rightarrow> real obj \<Rightarrow> nat obj \<Rightarrow> int list battler" where
  "demoBattler active acc imm =
     \<lparr>hostFields = active, stateAccumulations = Some acc, stateImmunity = Some imm\<rparr>"

text \<open>Two more configurations: a formula that always throws, and the formula
  \<^verbatim>\<open>a - (1.0 - b)\<close> of the plugin's help text, both without luck adjustment.\<close>

definition throwingParam :: param where
  "throwingParam =
     demoParam\<lparr>AccumulateFormula := Some (\<lambda>a b. Throws ThrownOther), LuckAdjust := False\<rparr>"

definition helpFormulaParam :: param where
  "helpFormulaParam =
     demoParam\<lparr>AccumulateFormula := Some (\<lambda>a b. Value (a - (1 - b))), LuckAdjust := False\<rparr>"

subsection \<open>The specification's reading of a certain hit\<close>

text \<open>For a certain hit with the override on, the specification skips the target's
  state effectiveness only: the base infliction is still multiplied by the luck factor
  (when luck adjustment is on) and by one minus the resistance, and clamped to the range
  from 0 to 1. This definition follows those words; it is compared with
  \<open>normalStateAccumulation\<close> below.\<close>

definition spec_certainHitDelta :: "bool \<Rightarrow> real \<Rightarrow> real \<Rightarrow> real \<Rightarrow> real" where
  "spec_certainHitDelta luckAdjust baseInfliction luckFactor resistance =
     clamp ((if luckAdjust then baseInfliction * luckFactor else baseInfliction)
              * (1 - resistance)) 0 1"

section \<open>Properties\<close>

subsection \<open>Basic facts\<close>

lemma entries_simps [simp]: "entries None = []" "entries (Some m) = m"
  by (simp_all add: entries_def)

lemma entries_clearStateAccumulationsIfNeed [simp]:
  "entries (stateAccumulations (clearStateAccumulationsIfNeed b)) = entries (stateAccumulations b)"
  "entries (stateImmunity (clearStateAccumulationsIfNeed b)) = entries (stateImmunity b)"
  "hostFields (clearStateAccumulationsIfNeed b) = hostFields b"
  by (auto simp: clearStateAccumulationsIfNeed_def entries_def Let_def split: option.splits)

lemma observe_clearStateAccumulationsIfNeed [simp]:
  "accumulationEntry (clearStateAccumulationsIfNeed b) k = accumulationEntry b k"
  "immunityEntry (clearStateAccumulationsIfNeed b) k = immunityEntry b k"
  by (simp_all add: accumulationEntry_def immunityEntry_def)



lemma applyResistance_Inr:
  assumes "stateImmunity target = Some imm"
    and "effectValueAfterLuck p h act ev target sid = Inr (pre, diags)"
  shows "applyResistanceForAccumulateState p h act ev target sid =
           Inr (clamp (pre * (1 - (case map_of imm sid of None \<Rightarrow> 0
                                   | Some n \<Rightarrow> real n * ImmunityRate p / 100))) 0 1, diags)"
  using assms
  by (simp add: applyResistanceForAccumulateState_def getStateImmunity_def)


lemma accumulateState_entry:
  "isStateAccumulate ds sid \<Longrightarrow>
     accumulationEntry (fst (accumulateState h ds sid v b)) sid
       = Some (orZero (accumulationEntry b sid) + v)"
  by (simp add: accumulateState_def Let_def accumulationEntry_def update_conv')

subsection \<open>accumulateState\<close>

text \<open>
  C1. \<^verbatim>\<open>accumulateState(stateId, value)\<close> returns true exactly when the state is
  accumulative, the battler is not affected by it and the old total (0 for a missing
  entry) plus the value is at least 1. For an accumulative state the stored total
  becomes the old total plus the value. When the call returns true the host's
  \<^verbatim>\<open>addState\<close> has been applied for that state and its immunity count (0 when missing)
  has grown by one; otherwise the host fields and the immunity count are as before. For
  a state that is not accumulative the call returns false and changes no stored entry.
  Entries of other states are never touched.
\<close>

theorem accumulateState_spec:
  assumes "accumulateState h ds sid v b = (b', r)"
  shows "(r \<longleftrightarrow> isStateAccumulate ds sid \<and> \<not> isStateAffected h (hostFields b) sid
              \<and> 1 \<le> orZero (accumulationEntry b sid) + v)
    \<and> (isStateAccumulate ds sid \<longrightarrow>
          accumulationEntry b' sid = Some (orZero (accumulationEntry b sid) + v))
    \<and> (r \<longrightarrow> hostFields b' = addState h sid (hostFields b)
              \<and> immunityEntry b' sid = Some (orZero (immunityEntry b sid) + 1))
    \<and> (\<not> r \<longrightarrow> hostFields b' = hostFields b \<and> immunityEntry b' sid = immunityEntry b sid)
    \<and> (\<not> isStateAccumulate ds sid \<longrightarrow>
          \<not> r \<and> (\<forall>k. accumulationEntry b' k = accumulationEntry b k
                     \<and> immunityEntry b' k = immunityEntry b k))
    \<and> (\<forall>k. k \<noteq> sid \<longrightarrow> accumulationEntry b' k = accumulationEntry b k
                     \<and> immunityEntry b' k = immunityEntry b k)"
  using assms
  by (auto simp: accumulateState_def Let_def accumulationEntry_def immunityEntry_def
        update_conv' split: if_splits)

text \<open>The example of the specification: 0.4 is stored for state 3, 0.65 is added.\<close>

theorem accumulateState_spec_witness:
  "accumulateState listHost demoStates 3 (65 / 100) (demoBattler [] [(3, 4 / 10)] [])
     = (demoBattler [3] [(3, 105 / 100)] [(3, 1)], True)
   \<and> immunityEntry (demoBattler [3] [(3, 105 / 100)] [(3, 1)]) 3 = Some 1
   \<and> accumulationEntry (demoBattler [3] [(3, 105 / 100)] [(3, 1)]) 3 = Some (105 / 100)"
proof -
  have run: "accumulateState listHost demoStates 3 (65 / 100) (demoBattler [] [(3, 4 / 10)] [])
     = (demoBattler [3] [(3, 105 / 100)] [(3, 1)], True)"
    by (simp add: accumulateState_def Let_def clearStateAccumulationsIfNeed_def listHost_def
          demoStates_def demoBattler_def isStateAccumulate_def orZero_def)
  from accumulateState_spec [OF run] show ?thesis
    using run
    by (simp add: accumulationEntry_def immunityEntry_def demoBattler_def orZero_def
          isStateAccumulate_def demoStates_def)
qed

lemma accumulateState_entries:
  "accumulationEntry (fst (accumulateState h ds sid v b)) k
     = (if isStateAccumulate ds sid \<and> k = sid
        then Some (orZero (accumulationEntry b sid) + v) else accumulationEntry b k)"
  by (simp add: accumulateState_def Let_def accumulationEntry_def update_conv')

subsection \<open>The accumulation passed on by itemEffectAddNormalState\<close>




text \<open>
  C3 (amended). When the action is a certain hit and the parameter CertainHit is on, the
  value passed to \<^verbatim>\<open>accumulateState\<close> for an accumulative state is
  \<^verbatim>\<open>effect.value1\<close> unchanged: \<^verbatim>\<open>applyResistanceForAccumulateState\<close> is not called, so
  neither the state effectiveness or the formula, nor the luck adjustment, nor the factor
  one minus resistance, nor the clamp is applied, and no diagnostic is emitted. The
  target's stored total grows by exactly \<^verbatim>\<open>effect.value1\<close>.
\<close>

theorem certainHit_bypass:
  assumes "isCertainHit act" and "CertainHit p" and "isStateAccumulate ds (dataId eff)"
  shows "normalStateAccumulation p h act target eff = Inr (value1 eff, [])
    \<and> itemEffectAddNormalState p h ds act target eff
        = Inr (Accumulated (fst (accumulateState h ds (dataId eff) (value1 eff) target))
                 (snd (accumulateState h ds (dataId eff) (value1 eff) target)) [])
    \<and> accumulationEntry (fst (accumulateState h ds (dataId eff) (value1 eff) target)) (dataId eff)
        = Some (orZero (accumulationEntry target (dataId eff)) + value1 eff)"
  using assms
  by (simp add: normalStateAccumulation_def itemEffectAddNormalState_def accumulateState_entry
        split: prod.splits)

text \<open>With luck adjustment on and a luck factor of one half, the specification's reading
  gives one quarter for a base infliction of one half; the source passes one half.\<close>

theorem certainHit_bypass_counterexample:
  "normalStateAccumulation demoParam listHost (demoAction True) (demoBattler [] [] [])
      \<lparr>dataId = 3, value1 = 1 / 2\<rparr> = Inr (1 / 2, [])
   \<and> getStateImmunity demoParam (demoBattler [] [] []) 3 = Inr 0
   \<and> spec_certainHitDelta (LuckAdjust demoParam) (1 / 2)
        (lukEffectRate (demoAction True) []) 0 = 1 / 4
   \<and> (1 / 4 :: real) \<noteq> 1 / 2"
  by (simp add: normalStateAccumulation_def demoParam_def demoAction_def getStateImmunity_def
        demoBattler_def spec_certainHitDelta_def clamp_def)

theorem certainHit_bypass_witness:
  "isCertainHit (demoAction True) \<and> CertainHit demoParam \<and> isStateAccumulate demoStates 3
   \<and> itemEffectAddNormalState demoParam listHost demoStates (demoAction True)
        (demoBattler [] [(3, 1 / 2)] []) \<lparr>dataId = 3, value1 = 2\<rparr>
      = Inr (Accumulated (demoBattler [3] [(3, 5 / 2)] [(3, 1)]) True [])"
proof -
  have a: "isCertainHit (demoAction True)" by (simp add: demoAction_def)
  have b: "CertainHit demoParam" by (simp add: demoParam_def)
  have c: "isStateAccumulate demoStates (dataId \<lparr>dataId = 3, value1 = 2\<rparr>)"
    by (simp add: isStateAccumulate_def demoStates_def)
  have run: "accumulateState listHost demoStates 3 2 (demoBattler [] [(3, 1 / 2)] [])
      = (demoBattler [3] [(3, 5 / 2)] [(3, 1)], True)"
    by (simp add: accumulateState_def Let_def clearStateAccumulationsIfNeed_def listHost_def
          demoStates_def demoBattler_def isStateAccumulate_def orZero_def)
  from certainHit_bypass [OF a b c, of listHost "demoBattler [] [(3, 1 / 2)] []"]
  show ?thesis using a b c run by simp
qed

subsection \<open>applyResistanceForAccumulateState\<close>

text \<open>
  C4 (amended). If the configured formula throws a value other than \<^verbatim>\<open>null\<close> or
  \<^verbatim>\<open>undefined\<close> and the target's immunity object exists,
  \<^verbatim>\<open>applyResistanceForAccumulateState\<close> does not propagate the exception, emits the
  buzzer and two console warnings, and goes on with \<^verbatim>\<open>effectValue\<close> as it was passed
  in (the state effectiveness is not applied): the result is that value, times the luck
  factor when luck adjustment is on, times one minus the immunity, clamped to the range
  from 0 to 1.
\<close>

theorem formula_failure:
  assumes "AccumulateFormula p = Some formula"
    and "formula ev (stateRate h (hostFields target) sid) = Throws ThrownOther"
    and "stateImmunity target = Some imm"
  shows "applyResistanceForAccumulateState p h act ev target sid
     = Inr (clamp ((if LuckAdjust p then ev * lukEffectRate act (hostFields target) else ev)
                     * (1 - (case map_of imm sid of None \<Rightarrow> 0
                             | Some n \<Rightarrow> real n * ImmunityRate p / 100))) 0 1,
            [PlayBuzzer, ConsoleWarn, ConsoleWarn])"
proof -
  have "effectValueAfterLuck p h act ev target sid
          = Inr (if LuckAdjust p then ev * lukEffectRate act (hostFields target) else ev,
                 [PlayBuzzer, ConsoleWarn, ConsoleWarn])"
    using assms(1,2) by (simp add: effectValueAfterLuck_def)
  from applyResistance_Inr [OF assms(3) this] show ?thesis .
qed

text \<open>A formula that throws an error object, with a base infliction of one half, yields
  one half, not 0.\<close>

theorem formula_failure_counterexample:
  "applyResistanceForAccumulateState throwingParam listHost (demoAction False) (1 / 2)
      (demoBattler [] [] []) 3 = Inr (1 / 2, [PlayBuzzer, ConsoleWarn, ConsoleWarn])
   \<and> (1 / 2 :: real) \<noteq> 0"
  by (simp add: applyResistanceForAccumulateState_def effectValueAfterLuck_def throwingParam_def
        demoParam_def getStateImmunity_def demoBattler_def clamp_def)

theorem formula_failure_witness:
  "AccumulateFormula (throwingParam\<lparr>ImmunityRate := 50\<rparr>) = Some (\<lambda>a b. Throws ThrownOther)
   \<and> stateImmunity (demoBattler [] [] [(3, 1)]) = Some [(3, 1)]
   \<and> applyResistanceForAccumulateState (throwingParam\<lparr>ImmunityRate := 50\<rparr>) listHost
        (demoAction False) (1 / 2) (demoBattler [] [] [(3, 1)]) 3
      = Inr (1 / 4, [PlayBuzzer, ConsoleWarn, ConsoleWarn])"
proof -
  have a: "AccumulateFormula (throwingParam\<lparr>ImmunityRate := 50\<rparr>)
             = Some (\<lambda>a b. Throws ThrownOther)"
    by (simp add: throwingParam_def demoParam_def)
  have b: "(\<lambda>a b. Throws ThrownOther) (1 / 2 :: real)
             (stateRate listHost (hostFields (demoBattler [] [] [(3, 1)])) 3) = Throws ThrownOther"
    by simp
  have c: "stateImmunity (demoBattler [] [] [(3, 1)]) = Some [(3, 1)]"
    by (simp add: demoBattler_def)
  from formula_failure [OF a b c, where act = "demoAction False"]
  show ?thesis using a c
    by (simp add: throwingParam_def demoParam_def clamp_def)
qed

text \<open>
  C9 (amended). For a battler whose immunity object exists, \<^verbatim>\<open>getStateImmunity\<close> returns
  0 when the state has no immunity entry, and otherwise the immunity count of the state
  times the parameter ImmunityRate divided by 100 (so 0 when the rate is 0). With a rate
  of 100 and a count of at least one, \<^verbatim>\<open>applyResistanceForAccumulateState\<close> returns
  exactly 0 whenever the count is one, or the value before the immunity factor (after
  the formula or the state effectiveness, and the luck adjustment) is not negative.
\<close>

theorem immunity_resistance:
  assumes "stateImmunity b = Some imm"
  shows "(immunityEntry b sid = None \<longrightarrow> getStateImmunity p b sid = Inr 0)
    \<and> (\<forall>n. immunityEntry b sid = Some n \<longrightarrow>
          getStateImmunity p b sid = Inr (real n * ImmunityRate p / 100))
    \<and> (ImmunityRate p = 0 \<longrightarrow> getStateImmunity p b sid = Inr 0)
    \<and> (\<forall>n pre diags. ImmunityRate p = 100 \<and> immunityEntry b sid = Some n \<and> 1 \<le> n
         \<and> effectValueAfterLuck p h act ev b sid = Inr (pre, diags) \<and> (n = 1 \<or> 0 \<le> pre)
       \<longrightarrow> applyResistanceForAccumulateState p h act ev b sid = Inr (0, diags))"
proof -
  have entry: "immunityEntry b sid = map_of imm sid"
    using assms by (simp add: immunityEntry_def)
  have query: "getStateImmunity p b sid
      = Inr (case map_of imm sid of None \<Rightarrow> 0 | Some n \<Rightarrow> real n * ImmunityRate p / 100)"
    using assms by (simp add: getStateImmunity_def)
  have zero: "clamp (x * (1 - real n * 100 / 100)) 0 1 = 0"
    if "1 \<le> n" and "n = 1 \<or> 0 \<le> x" for x n
  proof -
    have "x * (1 - real n) \<le> 0"
    proof (cases "n = 1")
      case True
      then show ?thesis by simp
    next
      case False
      with that have "0 \<le> x" and "1 - real n \<le> 0" by simp_all
      then show ?thesis by (rule mult_nonneg_nonpos)
    qed
    then show ?thesis by (simp add: clamp_def)
  qed
  have delta: "applyResistanceForAccumulateState p h act ev b sid = Inr (0, diags)"
    if "ImmunityRate p = 100" and "immunityEntry b sid = Some n" and "1 \<le> n"
      and "effectValueAfterLuck p h act ev b sid = Inr (pre, diags)" and "n = 1 \<or> 0 \<le> pre"
    for n pre diags
    using applyResistance_Inr [OF assms that(4)] that(1,2) zero [OF that(3,5)]
    by (simp add: entry)
  show ?thesis
    using query delta by (auto simp: entry split: option.splits)
qed

text \<open>With a rate of 100 and one activation, a certain hit with the override on still
  passes its base infliction of one half. Also, with two activations the help text's
  formula at a = 0.3 and b = 0.5 gives -0.2 before the immunity factor of -1, and the
  result is 0.2.\<close>

theorem immunity_resistance_counterexample:
  "getStateImmunity demoParam (demoBattler [] [] [(3, 1)]) 3 = Inr 1
   \<and> normalStateAccumulation demoParam listHost (demoAction True) (demoBattler [] [] [(3, 1)])
        \<lparr>dataId = 3, value1 = 1 / 2\<rparr> = Inr (1 / 2, [])
   \<and> (1 / 2 :: real) \<noteq> 0
   \<and> getStateImmunity helpFormulaParam (demoBattler [] [] [(3, 2)]) 3 = Inr 2
   \<and> applyResistanceForAccumulateState helpFormulaParam listHost (demoAction False) (3 / 10)
        (demoBattler [] [] [(3, 2)]) 3 = Inr (1 / 5, [])
   \<and> (1 / 5 :: real) \<noteq> 0"
  by (simp add: normalStateAccumulation_def demoParam_def demoAction_def getStateImmunity_def
        demoBattler_def applyResistanceForAccumulateState_def effectValueAfterLuck_def
        helpFormulaParam_def listHost_def clamp_def)

text \<open>One activation at a rate of 100: the help text's formula at a = 0.3 and b = 0.5
  gives -0.2 before the immunity factor, and the result is 0.\<close>

theorem immunity_resistance_witness:
  "stateImmunity (demoBattler [] [] [(3, 1)]) = Some [(3, 1)]
   \<and> getStateImmunity helpFormulaParam (demoBattler [] [] [(3, 1)]) 3 = Inr 1
   \<and> effectValueAfterLuck helpFormulaParam listHost (demoAction False) (3 / 10)
        (demoBattler [] [] [(3, 1)]) 3 = Inr (- 1 / 5, [])
   \<and> applyResistanceForAccumulateState helpFormulaParam listHost (demoAction False) (3 / 10)
        (demoBattler [] [] [(3, 1)]) 3 = Inr (0, [])"
proof -
  let ?b = "demoBattler [] [] [(3, 1)]"
  have a: "stateImmunity ?b = Some [(3, 1)]"
    by (simp add: demoBattler_def)
  have rate: "ImmunityRate helpFormulaParam = 100"
    by (simp add: helpFormulaParam_def demoParam_def)
  have entry: "immunityEntry ?b 3 = Some 1"
    by (simp add: immunityEntry_def demoBattler_def)
  have pre: "effectValueAfterLuck helpFormulaParam listHost (demoAction False) (3 / 10) ?b 3
      = Inr (- 1 / 5, [])"
    by (simp add: effectValueAfterLuck_def helpFormulaParam_def demoParam_def listHost_def)
  note inst = immunity_resistance [OF a, where p = helpFormulaParam and sid = 3
      and h = listHost and act = "demoAction False" and ev = "3 / 10"]
  have query: "getStateImmunity helpFormulaParam ?b 3 = Inr 1"
    using inst entry rate by simp
  have "applyResistanceForAccumulateState helpFormulaParam listHost (demoAction False) (3 / 10)
          ?b 3 = Inr (0, [])"
    using inst [THEN conjunct2, THEN conjunct2, THEN conjunct2, rule_format,
        of 1 "- 1 / 5" "[]"] rate entry pre
    by simp
  with a query pre show ?thesis by simp
qed

subsection \<open>clearStates, eraseState and removeState\<close>

lemma deleteAccumulation_observe [simp]:
  "accumulationEntry (deleteAccumulation sid b) k = (if k = sid then None else accumulationEntry b k)"
  "immunityEntry (deleteAccumulation sid b) k = immunityEntry b k"
  "hostFields (deleteAccumulation sid b) = hostFields b"
  by (simp_all add: deleteAccumulation_def accumulationEntry_def immunityEntry_def delete_conv')

lemma observe_hostFields_update [simp]:
  "accumulationEntry (b\<lparr>hostFields := e\<rparr>) k = accumulationEntry b k"
  "immunityEntry (b\<lparr>hostFields := e\<rparr>) k = immunityEntry b k"
  by (simp_all add: accumulationEntry_def immunityEntry_def)

text \<open>
  C5 (amended). \<^verbatim>\<open>clearStates\<close> runs the host's \<^verbatim>\<open>clearStates\<close> and then only makes sure
  that both objects exist: an object that was missing is created empty, an object that
  was there keeps every entry. Every stored accumulation and immunity count is the same
  after the call as before.
\<close>

theorem clearStates_keeps_maps:
  "hostFields (clearStates h b) = Game_BattlerBase_clearStates h (hostFields b)
   \<and> stateAccumulations (clearStates h b) = Some (entries (stateAccumulations b))
   \<and> stateImmunity (clearStates h b) = Some (entries (stateImmunity b))
   \<and> (\<forall>k. accumulationEntry (clearStates h b) k = accumulationEntry b k
          \<and> immunityEntry (clearStates h b) k = immunityEntry b k)"
  by (auto simp: clearStates_def clearStateAccumulationsIfNeed_def accumulationEntry_def
        immunityEntry_def Let_def split: option.splits)

text \<open>A battler with the entries 0.5 and 1 for state 3 keeps both entries.\<close>

theorem clearStates_keeps_maps_counterexample:
  "clearStates listHost (demoBattler [3] [(3, 1 / 2)] [(3, 1)]) = demoBattler [] [(3, 1 / 2)] [(3, 1)]
   \<and> accumulationEntry (clearStates listHost (demoBattler [3] [(3, 1 / 2)] [(3, 1)])) 3 = Some (1 / 2)
   \<and> immunityEntry (clearStates listHost (demoBattler [3] [(3, 1 / 2)] [(3, 1)])) 3 = Some 1"
  by (simp add: clearStates_def clearStateAccumulationsIfNeed_def listHost_def demoBattler_def
        accumulationEntry_def immunityEntry_def)

theorem clearStates_keeps_maps_witness:
  "stateAccumulations (clearStates listHost
      \<lparr>hostFields = [3], stateAccumulations = None, stateImmunity = Some [(3, 1)]\<rparr>) = Some []
   \<and> stateImmunity (clearStates listHost
      \<lparr>hostFields = [3], stateAccumulations = None, stateImmunity = Some [(3, 1)]\<rparr>) = Some [(3, 1)]"
  using clearStates_keeps_maps [of listHost
      "\<lparr>hostFields = [3], stateAccumulations = None, stateImmunity = Some [(3, 1)]\<rparr>"]
  by simp

text \<open>
  C6 (amended). After \<^verbatim>\<open>eraseState(stateId)\<close> and after \<^verbatim>\<open>removeState(stateId)\<close> the
  battler has no accumulation entry for that state, so that \<^verbatim>\<open>getStateAccumulation\<close>
  reads 0, while every immunity count, the one of that state included, is as before. The
  accumulation entries of the other states are as before, and the host's own method has
  been applied to the host fields. A clear of the whole state set through
  \<^verbatim>\<open>clearStates\<close> does not pass through these two methods: it leaves every accumulation
  entry and every immunity count as it was.
\<close>

theorem removal_zeroes_accumulation:
  "accumulationEntry (eraseState h sid b) sid = None
   \<and> getStateAccumulation (eraseState h sid b) sid = Inr 0
   \<and> accumulationEntry (removeState h sid b) sid = None
   \<and> getStateAccumulation (removeState h sid b) sid = Inr 0
   \<and> (\<forall>k. immunityEntry (eraseState h sid b) k = immunityEntry b k
          \<and> immunityEntry (removeState h sid b) k = immunityEntry b k)
   \<and> (\<forall>k. k \<noteq> sid \<longrightarrow> accumulationEntry (eraseState h sid b) k = accumulationEntry b k
          \<and> accumulationEntry (removeState h sid b) k = accumulationEntry b k)
   \<and> hostFields (eraseState h sid b) = Game_BattlerBase_eraseState h sid (hostFields b)
   \<and> hostFields (removeState h sid b) = Game_Battler_removeState h sid (hostFields b)
   \<and> (\<forall>k. accumulationEntry (clearStates h b) k = accumulationEntry b k
          \<and> immunityEntry (clearStates h b) k = immunityEntry b k)"
proof -
  have "getStateAccumulation (deleteAccumulation sid c) sid = Inr 0" for c :: "'a battler"
    by (simp add: getStateAccumulation_def deleteAccumulation_def delete_conv' orZero_def)
  then show ?thesis
    by (simp add: eraseState_def removeState_def clearStates_def)
qed

text \<open>State 3 is active with a total of 1.05. Clearing all states makes it inactive
  and keeps the total.\<close>

theorem removal_zeroes_accumulation_counterexample:
  "isStateAffected listHost (hostFields (demoBattler [3] [(3, 21 / 20)] [(3, 1)])) 3
   \<and> \<not> isStateAffected listHost
         (hostFields (clearStates listHost (demoBattler [3] [(3, 21 / 20)] [(3, 1)]))) 3
   \<and> getStateAccumulation (clearStates listHost (demoBattler [3] [(3, 21 / 20)] [(3, 1)])) 3
       = Inr (21 / 20)
   \<and> (21 / 20 :: real) \<noteq> 0"
  by (simp add: clearStates_def clearStateAccumulationsIfNeed_def listHost_def demoBattler_def
        getStateAccumulation_def orZero_def)

theorem removal_zeroes_accumulation_witness:
  "eraseState listHost 3 (demoBattler [3] [(3, 21 / 20)] [(3, 1)]) = demoBattler [] [] [(3, 1)]
   \<and> removeState listHost 3 (demoBattler [3] [(3, 21 / 20)] [(3, 1)]) = demoBattler [] [] [(3, 1)]
   \<and> getStateAccumulation (eraseState listHost 3 (demoBattler [3] [(3, 21 / 20)] [(3, 1)])) 3 = Inr 0
   \<and> immunityEntry (eraseState listHost 3 (demoBattler [3] [(3, 21 / 20)] [(3, 1)])) 3 = Some 1"
  using removal_zeroes_accumulation [of listHost 3 "demoBattler [3] [(3, 21 / 20)] [(3, 1)]"]
  by (simp add: eraseState_def removeState_def deleteAccumulation_def
        clearStateAccumulationsIfNeed_def listHost_def demoBattler_def immunityEntry_def)

subsection \<open>removeBattleStates\<close>

lemma resetAccumulations_result:
  assumes "\<forall>k \<in> set ks. ds k \<noteq> None"
  shows "\<exists>acc'. resetAccumulations ds ks acc = Inr acc'
     \<and> (\<forall>k. map_of acc' k =
            (if k \<in> set ks \<and> (\<exists>state. ds k = Some state \<and> removeAtBattleEnd state)
                 \<and> (\<exists>x. map_of acc k = Some x \<and> x > 0)
             then Some 0 else map_of acc k))"
  using assms
proof (induction ks arbitrary: acc)
  case Nil
  then show ?case by simp
next
  case (Cons sid rest)
  then obtain state where st: "ds sid = Some state" by auto
  define F where "F k \<longleftrightarrow> (\<exists>state. ds k = Some state \<and> removeAtBattleEnd state)" for k
  define P where "P m k \<longleftrightarrow> (\<exists>x. map_of m k = Some x \<and> x > 0)" for m :: "real obj" and k
  define cond where "cond \<longleftrightarrow> removeAtBattleEnd state
       \<and> (case map_of acc sid of None \<Rightarrow> False | Some x \<Rightarrow> x > 0)"
  define acc1 where "acc1 = (if cond then AList.update sid 0 acc else acc)"
  have cond_iff: "cond \<longleftrightarrow> F sid \<and> P acc sid"
    by (auto simp: cond_def F_def P_def st split: option.splits)
  have get1: "map_of acc1 k = (if k = sid \<and> cond then Some 0 else map_of acc k)" for k
    by (simp add: acc1_def update_conv')
  have P1: "P acc1 k \<longleftrightarrow> P acc k \<and> \<not> (k = sid \<and> cond)" for k
    unfolding P_def get1 by simp
  from Cons.prems have "\<forall>k \<in> set rest. ds k \<noteq> None" by simp
  from Cons.IH [OF this, of acc1] obtain acc' where
    run: "resetAccumulations ds rest acc1 = Inr acc'" and
    vals: "\<And>k. map_of acc' k = (if k \<in> set rest \<and> F k \<and> P acc1 k then Some 0 else map_of acc1 k)"
    unfolding F_def P_def by blast
  have step: "resetAccumulations ds (sid # rest) acc = Inr acc'"
    using st run by (simp add: acc1_def cond_def)
  have "map_of acc' k = (if k \<in> set (sid # rest) \<and> F k \<and> P acc k then Some 0 else map_of acc k)"
    for k
  proof (cases "k = sid \<and> cond")
    case True
    then have "map_of acc' k = Some 0"
      using vals [of k] P1 [of k] get1 [of k] by simp
    moreover have "k \<in> set (sid # rest) \<and> F k \<and> P acc k"
      using True cond_iff by simp
    ultimately show ?thesis by simp
  next
    case False
    then have same: "map_of acc1 k = map_of acc k" "P acc1 k = P acc k"
      using get1 [of k] P1 [of k] by auto
    show ?thesis
    proof (cases "k = sid")
      case True
      with False cond_iff have "\<not> (F k \<and> P acc k)" by simp
      then show ?thesis using vals [of k] same by auto
    next
      case False
      then show ?thesis using vals [of k] same by auto
    qed
  qed
  with step show ?case unfolding F_def P_def by blast
qed

lemma keys_iff:
  "accumulationKeysDefined ds b \<longleftrightarrow> (\<forall>k. accumulationEntry b k \<noteq> None \<longrightarrow> ds k \<noteq> None)"
  unfolding accumulationKeysDefined_def accumulationEntry_def map_of_eq_None_iff
  by blast

lemma removeState_observe [simp]:
  "accumulationEntry (removeState h sid b) k = (if k = sid then None else accumulationEntry b k)"
  "immunityEntry (removeState h sid b) k = immunityEntry b k"
  by (simp_all add: removeState_def)

lemma removeFlaggedStates_observe:
  "accumulationEntry (removeFlaggedStates h ds ks b) k
     = (if k \<in> set ks \<and> (\<exists>state. ds k = Some state \<and> removeAtBattleEnd state)
        then None else accumulationEntry b k)
   \<and> immunityEntry (removeFlaggedStates h ds ks b) k = immunityEntry b k"
proof (induction ks arbitrary: b)
  case Nil
  then show ?case by simp
next
  case (Cons sid rest)
  define F where "F j \<longleftrightarrow> (\<exists>state. ds j = Some state \<and> removeAtBattleEnd state)" for j
  have flag: "(case ds sid of None \<Rightarrow> False | Some state \<Rightarrow> removeAtBattleEnd state) = F sid"
    by (simp add: F_def split: option.splits)
  define b1 where "b1 = (if F sid then removeState h sid b else b)"
  have step: "removeFlaggedStates h ds (sid # rest) b = removeFlaggedStates h ds rest b1"
    by (simp add: flag b1_def)
  have one: "accumulationEntry b1 k = (if k = sid \<and> F sid then None else accumulationEntry b k)"
    and imm: "immunityEntry b1 k = immunityEntry b k"
    by (simp_all add: b1_def)
  from Cons.IH [of b1] have
    "accumulationEntry (removeFlaggedStates h ds rest b1) k
       = (if k \<in> set rest \<and> F k then None else accumulationEntry b1 k)"
    and "immunityEntry (removeFlaggedStates h ds rest b1) k = immunityEntry b1 k"
    by (simp_all add: F_def)
  then have "accumulationEntry (removeFlaggedStates h ds (sid # rest) b) k
       = (if k \<in> set (sid # rest) \<and> F k then None else accumulationEntry b k)"
    and "immunityEntry (removeFlaggedStates h ds (sid # rest) b) k = immunityEntry b k"
    unfolding step one imm by auto
  then show ?case unfolding F_def by blast
qed

lemma host_removeBattleStates_keys:
  "accumulationKeysDefined ds b \<Longrightarrow>
     accumulationKeysDefined ds (Game_Battler_removeBattleStates h ds b)"
  by (simp add: keys_iff Game_Battler_removeBattleStates_def removeFlaggedStates_observe)

lemma removeBattleStates_after_host:
  assumes "accumulationKeysDefined ds (Game_Battler_removeBattleStates h ds b)"
  shows "\<exists>b'. removeBattleStates p h ds b = Inr b'
     \<and> hostFields b' = hostFields (Game_Battler_removeBattleStates h ds b)
     \<and> (\<forall>k. immunityEntry b' k = immunityEntry (Game_Battler_removeBattleStates h ds b) k)
     \<and> (\<forall>k. accumulationEntry b' k =
            (if ResetAccumulateEndBattle p
                 \<and> (\<exists>state. ds k = Some state \<and> removeAtBattleEnd state)
                 \<and> (\<exists>x. accumulationEntry (Game_Battler_removeBattleStates h ds b) k = Some x
                        \<and> x > 0)
             then Some 0 else accumulationEntry (Game_Battler_removeBattleStates h ds b) k))"
proof -
  define b1 where "b1 = Game_Battler_removeBattleStates h ds b"
  have unfold: "removeBattleStates p h ds b =
      (if ResetAccumulateEndBattle p then
        (case stateAccumulations b1 of
           None \<Rightarrow> Inr b1
         | Some acc \<Rightarrow>
             (case resetAccumulations ds (map fst acc) acc of
                Inl e \<Rightarrow> Inl e
              | Inr acc' \<Rightarrow> Inr (b1\<lparr>stateAccumulations := Some acc'\<rparr>)))
      else Inr b1)"
    unfolding removeBattleStates_def Let_def b1_def by (rule refl)
  from assms have keys: "accumulationKeysDefined ds b1" by (simp add: b1_def)
  have "\<exists>b'. removeBattleStates p h ds b = Inr b'
     \<and> hostFields b' = hostFields b1
     \<and> (\<forall>k. immunityEntry b' k = immunityEntry b1 k)
     \<and> (\<forall>k. accumulationEntry b' k =
            (if ResetAccumulateEndBattle p
                 \<and> (\<exists>state. ds k = Some state \<and> removeAtBattleEnd state)
                 \<and> (\<exists>x. accumulationEntry b1 k = Some x \<and> x > 0)
             then Some 0 else accumulationEntry b1 k))"
  proof (cases "ResetAccumulateEndBattle p")
    case False
    then show ?thesis by (simp add: unfold)
  next
    case True
    show ?thesis
    proof (cases "stateAccumulations b1")
      case None
      then show ?thesis
        using True by (simp add: unfold accumulationEntry_def)
    next
      case (Some acc)
      with keys have "\<forall>k \<in> set (map fst acc). ds k \<noteq> None"
        by (simp add: accumulationKeysDefined_def)
      from resetAccumulations_result [OF this, of acc] obtain acc' where
        run: "resetAccumulations ds (map fst acc) acc = Inr acc'" and
        vals: "\<forall>k. map_of acc' k =
              (if k \<in> set (map fst acc) \<and> (\<exists>state. ds k = Some state \<and> removeAtBattleEnd state)
                   \<and> (\<exists>x. map_of acc k = Some x \<and> x > 0)
               then Some 0 else map_of acc k)"
        by blast
      have key: "map_of acc k = Some x \<Longrightarrow> k \<in> set (map fst acc)" for k x
        by (metis domI dom_map_of_conv_image_fst list.set_map)
      let ?b' = "b1\<lparr>stateAccumulations := Some acc'\<rparr>"
      have res: "removeBattleStates p h ds b = Inr ?b'"
        using True Some run by (simp add: unfold)
      have acc: "accumulationEntry ?b' k =
              (if ResetAccumulateEndBattle p
                   \<and> (\<exists>state. ds k = Some state \<and> removeAtBattleEnd state)
                   \<and> (\<exists>x. accumulationEntry b1 k = Some x \<and> x > 0)
               then Some 0 else accumulationEntry b1 k)" for k
      proof (cases "map_of acc k")
        case None
        then show ?thesis
          using vals [rule_format, of k] Some by (simp add: accumulationEntry_def)
      next
        case (Some x)
        then have "k \<in> set (map fst acc)" by (rule key)
        then show ?thesis
          using vals [rule_format, of k] True \<open>stateAccumulations b1 = Some acc\<close>
          by (simp add: accumulationEntry_def) blast
      qed
      have imm: "immunityEntry ?b' k = immunityEntry b1 k" for k
        by (simp add: immunityEntry_def)
      have "hostFields ?b' = hostFields b1"
        by simp
      with res acc imm show ?thesis by blast
    qed
  qed
  then show ?thesis unfolding b1_def .
qed




subsection \<open>Sequences of calls: immunity counts and keys\<close>

lemma accumulateState_immunity:
  "immunityEntry (fst (accumulateState h ds sid v b)) k
     = (if snd (accumulateState h ds sid v b) \<and> k = sid
        then Some (orZero (immunityEntry b sid) + 1) else immunityEntry b k)"
  by (simp add: accumulateState_def Let_def immunityEntry_def update_conv')

lemma accumulateState_affected:
  "isStateAffected h (hostFields b) sid \<Longrightarrow>
     \<not> snd (accumulateState h ds sid v b)
     \<and> hostFields (fst (accumulateState h ds sid v b)) = hostFields b"
  by (simp add: accumulateState_def Let_def)

lemma immunityEntry_stateAccumulations_update [simp]:
  "immunityEntry (b\<lparr>stateAccumulations := x\<rparr>) k = immunityEntry b k"
  by (simp add: immunityEntry_def)

lemma removeBattleStates_immunity:
  assumes "removeBattleStates p h ds b = Inr b'"
  shows "immunityEntry b' k = immunityEntry b k"
proof -
  define b1 where "b1 = Game_Battler_removeBattleStates h ds b"
  have host: "immunityEntry b1 k = immunityEntry b k"
    using removeFlaggedStates_observe [of h ds "states h (hostFields b)" b k]
    by (simp add: b1_def Game_Battler_removeBattleStates_def)
  have "removeBattleStates p h ds b =
      (if ResetAccumulateEndBattle p then
        (case stateAccumulations b1 of
           None \<Rightarrow> Inr b1
         | Some acc \<Rightarrow>
             (case resetAccumulations ds (map fst acc) acc of
                Inl e \<Rightarrow> Inl e
              | Inr acc' \<Rightarrow> Inr (b1\<lparr>stateAccumulations := Some acc'\<rparr>)))
      else Inr b1)"
    unfolding removeBattleStates_def Let_def b1_def by (rule refl)
  with assms have "immunityEntry b' k = immunityEntry b1 k"
    by (auto split: if_splits option.splits sum.splits)
  with host show ?thesis by simp
qed

lemma call_immunity_mono:
  assumes "call p h ds c b = Inr b'"
  shows "orZero (immunityEntry b k) \<le> orZero (immunityEntry b' k)"
proof (cases c)
  case CallClearStates
  with assms show ?thesis by (auto simp: clearStates_def)
next
  case (CallEraseState sid)
  with assms show ?thesis by (auto simp: eraseState_def)
next
  case (CallRemoveState sid)
  with assms show ?thesis by (auto simp: removeState_def)
next
  case (CallAccumulateState sid v)
  with assms show ?thesis by (auto simp: accumulateState_immunity orZero_def)
next
  case CallRemoveBattleStates
  with assms show ?thesis by (simp add: removeBattleStates_immunity)
qed

lemma calls_immunity_mono:
  "calls p h ds cs b = Inr b' \<Longrightarrow> orZero (immunityEntry b k) \<le> orZero (immunityEntry b' k)"
proof (induction cs arbitrary: b)
  case Nil
  then show ?case by simp
next
  case (Cons c cs)
  then obtain b1 where one: "call p h ds c b = Inr b1" and rest: "calls p h ds cs b1 = Inr b'"
    by (auto split: sum.splits)
  from call_immunity_mono [OF one] Cons.IH [OF rest] show ?case
    by (rule order_trans)
qed

lemma keys_clearStates:
  "accumulationKeysDefined ds b \<Longrightarrow> accumulationKeysDefined ds (clearStates h b)"
  by (simp add: keys_iff clearStates_def)

lemma keys_eraseState:
  "accumulationKeysDefined ds b \<Longrightarrow> accumulationKeysDefined ds (eraseState h sid b)"
  by (simp add: keys_iff eraseState_def)

lemma keys_removeState:
  "accumulationKeysDefined ds b \<Longrightarrow> accumulationKeysDefined ds (removeState h sid b)"
  by (simp add: keys_iff removeState_def)

lemma keys_accumulateState:
  assumes "accumulationKeysDefined ds b"
  shows "accumulationKeysDefined ds (fst (accumulateState h ds sid v b))"
proof -
  have "ds sid \<noteq> None" if "isStateAccumulate ds sid"
    using that by (cases "ds sid") (simp_all add: isStateAccumulate_def)
  with assms show ?thesis
    by (simp add: keys_iff accumulateState_entries)
qed

lemma removeBattleStates_total:
  assumes "accumulationKeysDefined ds b"
  shows "\<exists>b'. removeBattleStates p h ds b = Inr b' \<and> accumulationKeysDefined ds b'"
proof -
  define b1 where "b1 = Game_Battler_removeBattleStates h ds b"
  from host_removeBattleStates_keys [OF assms, of h]
  have keys: "accumulationKeysDefined ds b1" by (simp add: b1_def)
  from removeBattleStates_after_host [of ds h b p] keys obtain b' where
    res: "removeBattleStates p h ds b = Inr b'" and
    acc: "\<And>k. accumulationEntry b' k =
            (if ResetAccumulateEndBattle p
                 \<and> (\<exists>state. ds k = Some state \<and> removeAtBattleEnd state)
                 \<and> (\<exists>x. accumulationEntry b1 k = Some x \<and> x > 0)
             then Some 0 else accumulationEntry b1 k)"
    unfolding b1_def by blast
  have "ds k \<noteq> None" if "accumulationEntry b' k \<noteq> None" for k
  proof -
    from that acc [of k] have "accumulationEntry b1 k \<noteq> None"
      by (auto split: if_splits)
    with keys show ?thesis by (simp add: keys_iff)
  qed
  then have "accumulationKeysDefined ds b'"
    unfolding keys_iff by blast
  with res show ?thesis by blast
qed

lemma call_total:
  assumes "accumulationKeysDefined ds b"
  shows "\<exists>b'. call p h ds c b = Inr b' \<and> accumulationKeysDefined ds b'"
proof (cases c)
  case CallClearStates
  with assms show ?thesis by (simp add: keys_clearStates)
next
  case (CallEraseState sid)
  with assms show ?thesis by (simp add: keys_eraseState)
next
  case (CallRemoveState sid)
  with assms show ?thesis by (simp add: keys_removeState)
next
  case (CallAccumulateState sid v)
  with assms show ?thesis by (simp add: keys_accumulateState)
next
  case CallRemoveBattleStates
  with assms show ?thesis by (simp add: removeBattleStates_total)
qed

lemma calls_total:
  "accumulationKeysDefined ds b \<Longrightarrow>
     \<exists>b'. calls p h ds cs b = Inr b' \<and> accumulationKeysDefined ds b'"
proof (induction cs arbitrary: b)
  case Nil
  then show ?case by simp
next
  case (Cons c cs)
  from call_total [OF Cons.prems, of p h c] obtain b1 where
    one: "call p h ds c b = Inr b1" and keys: "accumulationKeysDefined ds b1"
    by blast
  from Cons.IH [OF keys] one show ?case by simp
qed

text \<open>
  C8. While the battler is affected by the state, \<^verbatim>\<open>accumulateState\<close> for that state
  returns false, does not call the host's \<^verbatim>\<open>addState\<close> and changes no immunity count.
  Over any sequence of calls of \<^verbatim>\<open>clearStates\<close>, \<^verbatim>\<open>eraseState\<close>, \<^verbatim>\<open>removeState\<close>,
  \<^verbatim>\<open>accumulateState\<close> and \<^verbatim>\<open>removeBattleStates\<close> that returns normally, no immunity
  count decreases; and such a sequence does return normally from every battler whose
  accumulation keys are states of the database.
\<close>

theorem activation_one_shot:
  "(isStateAffected h (hostFields b) sid \<longrightarrow>
      \<not> snd (accumulateState h ds sid v b)
      \<and> hostFields (fst (accumulateState h ds sid v b)) = hostFields b
      \<and> (\<forall>k. immunityEntry (fst (accumulateState h ds sid v b)) k = immunityEntry b k))
   \<and> (\<forall>b'. calls p h ds cs b = Inr b' \<longrightarrow>
         orZero (immunityEntry b k) \<le> orZero (immunityEntry b' k))
   \<and> (accumulationKeysDefined ds b \<longrightarrow> (\<exists>b'. calls p h ds cs b = Inr b'))"
proof (intro conjI impI allI)
  assume "isStateAffected h (hostFields b) sid"
  from accumulateState_affected [OF this, of ds v]
  show "\<not> snd (accumulateState h ds sid v b)"
    and "hostFields (fst (accumulateState h ds sid v b)) = hostFields b"
    by simp_all
  then show "immunityEntry (fst (accumulateState h ds sid v b)) j = immunityEntry b j" for j
    by (simp add: accumulateState_immunity)
next
  fix b' assume "calls p h ds cs b = Inr b'"
  then show "orZero (immunityEntry b k) \<le> orZero (immunityEntry b' k)"
    by (rule calls_immunity_mono)
next
  assume "accumulationKeysDefined ds b"
  from calls_total [OF this, of p h cs] show "\<exists>b'. calls p h ds cs b = Inr b'"
    by blast
qed

text \<open>State 3 is active with one activation: a further accumulation does nothing to the
  count, and after a removal the next activation raises it from 1 to 2.\<close>

theorem activation_one_shot_witness:
  "isStateAffected listHost (hostFields (demoBattler [3] [(3, 21 / 20)] [(3, 1)])) 3
   \<and> \<not> snd (accumulateState listHost demoStates 3 (1 / 2) (demoBattler [3] [(3, 21 / 20)] [(3, 1)]))
   \<and> immunityEntry (fst (accumulateState listHost demoStates 3 (1 / 2)
          (demoBattler [3] [(3, 21 / 20)] [(3, 1)]))) 3 = Some 1
   \<and> calls demoParam listHost demoStates
        [CallAccumulateState 3 (1 / 2), CallRemoveState 3, CallAccumulateState 3 1]
        (demoBattler [3] [(3, 21 / 20)] [(3, 1)]) = Inr (demoBattler [3] [(3, 1)] [(3, 2)])
   \<and> orZero (immunityEntry (demoBattler [3] [(3, 21 / 20)] [(3, 1)]) 3)
        \<le> orZero (immunityEntry (demoBattler [3] [(3, 1)] [(3, 2)]) 3)"
proof -
  let ?b = "demoBattler [3] [(3, 21 / 20)] [(3, 1)]"
  let ?cs = "[CallAccumulateState 3 (1 / 2), CallRemoveState 3, CallAccumulateState 3 1]"
  have active: "isStateAffected listHost (hostFields ?b) 3"
    by (simp add: listHost_def demoBattler_def)
  have before: "immunityEntry ?b 3 = Some 1"
    by (simp add: immunityEntry_def demoBattler_def)
  have acc: "isStateAccumulate demoStates 3"
    by (simp add: isStateAccumulate_def demoStates_def)
  have run: "calls demoParam listHost demoStates ?cs ?b = Inr (demoBattler [3] [(3, 1)] [(3, 2)])"
    using acc
    by (simp add: accumulateState_def removeState_def deleteAccumulation_def Let_def
          clearStateAccumulationsIfNeed_def listHost_def demoBattler_def orZero_def)
  note inst = activation_one_shot [where h = listHost and b = ?b and sid = 3 and ds = demoStates
      and v = "1 / 2" and p = demoParam and cs = ?cs and k = 3]
  from inst active before run show ?thesis
    by simp
qed

subsection \<open>The plugin command\<close>

lemma accumulateState_adds:
  assumes "isStateAccumulate ds sid"
  shows "(accumulationEntry b sid = None \<longrightarrow>
            accumulationEntry (fst (accumulateState h ds sid v b)) sid = Some v)
    \<and> (\<forall>x. accumulationEntry b sid = Some x \<longrightarrow>
            accumulationEntry (fst (accumulateState h ds sid v b)) sid = Some (x + v))"
  using accumulateState_entry [OF assms, of h v b] by (simp add: orZero_def)

text \<open>
  C10. For an accumulative state \<^verbatim>\<open>accumulateState\<close> stores the value itself when there
  is no entry yet, and otherwise the stored total plus the value, whatever the sign of
  the value and of the sum: there is no floor at 0. The command ACCUMULATE passes
  \<^verbatim>\<open>args.rate / 100\<close> to it, for the actor with the given id when there is one and for
  the troop member at the given index when there is one, so a negative rate lowers the
  stored total by that many hundredths, below 0 if need be.
\<close>

theorem ACCUMULATE_unbounded_below:
  assumes "isStateAccumulate ds (args_stateId args)"
  shows "(accumulationEntry b (args_stateId args) = None \<longrightarrow>
            accumulationEntry (fst (accumulateState h ds (args_stateId args) v b)) (args_stateId args)
              = Some v)
    \<and> (\<forall>x. accumulationEntry b (args_stateId args) = Some x \<longrightarrow>
            accumulationEntry (fst (accumulateState h ds (args_stateId args) v b)) (args_stateId args)
              = Some (x + v))
    \<and> (\<forall>actor. gameActors g (args_actorId args) = Some actor \<longrightarrow>
          (\<exists>actor'. gameActors (ACCUMULATE h ds args g) (args_actorId args) = Some actor'
             \<and> (accumulationEntry actor (args_stateId args) = None \<longrightarrow>
                  accumulationEntry actor' (args_stateId args) = Some (args_rate args / 100))
             \<and> (\<forall>x. accumulationEntry actor (args_stateId args) = Some x \<longrightarrow>
                  accumulationEntry actor' (args_stateId args) = Some (x + args_rate args / 100))))
    \<and> (0 \<le> args_enemyIndex args \<and> nat (args_enemyIndex args) < length (gameTroopMembers g) \<longrightarrow>
          (accumulationEntry (gameTroopMembers g ! nat (args_enemyIndex args)) (args_stateId args)
             = None \<longrightarrow>
           accumulationEntry (gameTroopMembers (ACCUMULATE h ds args g) ! nat (args_enemyIndex args))
              (args_stateId args) = Some (args_rate args / 100))
          \<and> (\<forall>x. accumulationEntry (gameTroopMembers g ! nat (args_enemyIndex args))
                    (args_stateId args) = Some x \<longrightarrow>
           accumulationEntry (gameTroopMembers (ACCUMULATE h ds args g) ! nat (args_enemyIndex args))
              (args_stateId args) = Some (x + args_rate args / 100)))"
proof -
  note adds = accumulateState_adds [OF assms]
  have actor: "gameActors (ACCUMULATE h ds args g) (args_actorId args)
      = Some (fst (accumulateState h ds (args_stateId args) (args_rate args / 100) actor))"
    if "gameActors g (args_actorId args) = Some actor" for actor
    using that by (simp add: ACCUMULATE_def Let_def)
  have enemy: "gameTroopMembers (ACCUMULATE h ds args g) ! nat (args_enemyIndex args)
      = fst (accumulateState h ds (args_stateId args) (args_rate args / 100)
               (gameTroopMembers g ! nat (args_enemyIndex args)))"
    if "0 \<le> args_enemyIndex args" and "nat (args_enemyIndex args) < length (gameTroopMembers g)"
    using that by (simp add: ACCUMULATE_def Let_def split: option.splits)
  show ?thesis
  proof (intro conjI allI impI)
    assume "accumulationEntry b (args_stateId args) = None"
    with adds [of b h v]
    show "accumulationEntry (fst (accumulateState h ds (args_stateId args) v b)) (args_stateId args)
            = Some v"
      by blast
  next
    fix x assume "accumulationEntry b (args_stateId args) = Some x"
    with adds [of b h v]
    show "accumulationEntry (fst (accumulateState h ds (args_stateId args) v b)) (args_stateId args)
            = Some (x + v)"
      by blast
  next
    fix a assume there: "gameActors g (args_actorId args) = Some a"
    let ?a' = "fst (accumulateState h ds (args_stateId args) (args_rate args / 100) a)"
    from adds [of a h "args_rate args / 100"] actor [OF there]
    show "\<exists>actor'. gameActors (ACCUMULATE h ds args g) (args_actorId args) = Some actor'
             \<and> (accumulationEntry a (args_stateId args) = None \<longrightarrow>
                  accumulationEntry actor' (args_stateId args) = Some (args_rate args / 100))
             \<and> (\<forall>x. accumulationEntry a (args_stateId args) = Some x \<longrightarrow>
                  accumulationEntry actor' (args_stateId args) = Some (x + args_rate args / 100))"
      by (intro exI [of _ ?a']) blast
  next
    assume range: "0 \<le> args_enemyIndex args
        \<and> nat (args_enemyIndex args) < length (gameTroopMembers g)"
      and "accumulationEntry (gameTroopMembers g ! nat (args_enemyIndex args)) (args_stateId args)
             = None"
    with adds [of "gameTroopMembers g ! nat (args_enemyIndex args)" h "args_rate args / 100"]
      enemy
    show "accumulationEntry (gameTroopMembers (ACCUMULATE h ds args g) ! nat (args_enemyIndex args))
              (args_stateId args) = Some (args_rate args / 100)"
      by simp
  next
    fix x
    assume range: "0 \<le> args_enemyIndex args
        \<and> nat (args_enemyIndex args) < length (gameTroopMembers g)"
      and "accumulationEntry (gameTroopMembers g ! nat (args_enemyIndex args)) (args_stateId args)
             = Some x"
    with adds [of "gameTroopMembers g ! nat (args_enemyIndex args)" h "args_rate args / 100"]
      enemy
    show "accumulationEntry (gameTroopMembers (ACCUMULATE h ds args g) ! nat (args_enemyIndex args))
              (args_stateId args) = Some (x + args_rate args / 100)"
      by simp
  qed
qed

text \<open>A rate of -50 on an actor with a stored total of 0.3 stores -0.2.\<close>

theorem ACCUMULATE_unbounded_below_witness:
  "isStateAccumulate demoStates (args_stateId
       \<lparr>args_actorId = 1, args_enemyIndex = - 1, args_stateId = 3, args_rate = - 50\<rparr>)
   \<and> gameActors (ACCUMULATE listHost demoStates
        \<lparr>args_actorId = 1, args_enemyIndex = - 1, args_stateId = 3, args_rate = - 50\<rparr>
        \<lparr>gameActors = [1 \<mapsto> demoBattler [] [(3, 3 / 10)] []], gameTroopMembers = []\<rparr>) 1
      = Some (demoBattler [] [(3, - 1 / 5)] [])
   \<and> accumulationEntry (demoBattler [] [(3, - 1 / 5)] []) 3 = Some (3 / 10 + - 50 / 100)
   \<and> (3 / 10 + - 50 / 100 :: real) < 0"
proof -
  let ?args = "\<lparr>args_actorId = 1, args_enemyIndex = - 1, args_stateId = 3, args_rate = - 50\<rparr>"
  let ?actor = "demoBattler [] [(3, 3 / 10)] []"
  let ?g = "\<lparr>gameActors = [1 \<mapsto> ?actor], gameTroopMembers = []\<rparr>"
  have acc: "isStateAccumulate demoStates (args_stateId ?args)"
    by (simp add: isStateAccumulate_def demoStates_def)
  have run: "gameActors (ACCUMULATE listHost demoStates ?args ?g) 1
      = Some (demoBattler [] [(3, - 1 / 5)] [])"
    using acc
    by (simp add: ACCUMULATE_def accumulateState_def Let_def clearStateAccumulationsIfNeed_def
          listHost_def demoBattler_def orZero_def)
  have there: "gameActors ?g (args_actorId ?args) = Some ?actor"
    by simp
  have before: "accumulationEntry ?actor (args_stateId ?args) = Some (3 / 10)"
    by (simp add: accumulationEntry_def demoBattler_def)
  from ACCUMULATE_unbounded_below [OF acc, where g = ?g and h = listHost,
      THEN conjunct2, THEN conjunct2, THEN conjunct1, rule_format, OF there]
  obtain actor' where
    res: "gameActors (ACCUMULATE listHost demoStates ?args ?g) (args_actorId ?args) = Some actor'"
    and sum: "\<forall>x. accumulationEntry ?actor (args_stateId ?args) = Some x \<longrightarrow>
        accumulationEntry actor' (args_stateId ?args) = Some (x + args_rate ?args / 100)"
    by blast
  from res run have same: "actor' = demoBattler [] [(3, - 1 / 5)] []"
    by simp
  from sum [rule_format, OF before]
  have "accumulationEntry (demoBattler [] [(3, - 1 / 5)] []) 3 = Some (3 / 10 + - 50 / 100)"
    unfolding same by simp
  with acc run show ?thesis by simp
qed

end
